theory Spec2Isabelle
  imports Complex_Main
begin

section \<open>Numbers and failures\<close>

text \<open>
  The notebooks compute with Python and NumPy double-precision floats. They are embedded
  as \<^typ>\<open>real\<close>: rounding, overflow and underflow are idealised away, so every
  statement below is about the formulas the code evaluates, read over the reals. Python
  integers are \<^typ>\<open>int\<close>.

  A call either raises a Python exception or leaves the finite numbers: NumPy then
  yields \<^verbatim>\<open>nan\<close> or \<^verbatim>\<open>inf\<close> for some intermediate value, with a warning and no
  exception. Both are values of \<open>failure\<close>: \<open>NonFinite\<close> is the second case (the
  embedding does not follow such a computation further), the others are raised;
  \<open>QiskitError\<close> is the base class of the errors of the Qiskit libraries.
\<close>

datatype failure = ZeroDivisionError | ValueError | IndexError | QiskitError | NonFinite

section \<open>Extremum selection: \<^verbatim>\<open>np.amax\<close> and \<^verbatim>\<open>np.argmax\<close>\<close>

text \<open>
  Every scan ends with
  \<^verbatim>\<open>
  results = np.array(results)
  print(f"Lookback Option Expected Payoff: {np.amax(results)}")
  print(f"Payoff 95% CI w/ eps 0.01: {conf_list[np.argmax(results)]}")
  print(f"Lookback Option Day of Max Payoff: {np.argmax(results)+1}")
  \<close>
  \<^verbatim>\<open>np.amax\<close> reduces with the maximum and raises ValueError on an empty array;
  \<^verbatim>\<open>np.argmax\<close> returns the index of the first occurrence of the maximum and
  raises ValueError on an empty array. The scan of \<open>argmax_loop\<close> keeps the best value
  \<open>mv\<close>, its index \<open>mi\<close> and the current index \<open>i\<close>, and moves only on a strictly
  larger entry.
\<close>

fun np_amax :: "real list \<Rightarrow> failure + real" where
  "np_amax [] = Inl ValueError"
| "np_amax (x # xs) = Inr (fold max xs x)"

fun argmax_loop :: "real \<Rightarrow> nat \<Rightarrow> nat \<Rightarrow> real list \<Rightarrow> nat" where
  "argmax_loop mv mi i [] = mi"
| "argmax_loop mv mi i (x # xs) =
     (if mv < x then argmax_loop x i (i + 1) xs else argmax_loop mv mi (i + 1) xs)"

fun np_argmax :: "real list \<Rightarrow> failure + nat" where
  "np_argmax [] = Inl ValueError"
| "np_argmax (x # xs) = Inr (argmax_loop x 0 1 xs)"

text \<open>
  The three printed values as one triple: the value, the interval stored for the selected
  index, and the index plus one. Indexing \<open>conf_list\<close> out of range raises IndexError.
\<close>

definition lookback_report :: "real list \<Rightarrow> 'c list \<Rightarrow> failure + (real \<times> 'c \<times> nat)" where
  "lookback_report results conf_list =
     (case np_amax results of
        Inl e \<Rightarrow> Inl e
      | Inr m \<Rightarrow>
          (case np_argmax results of
             Inl e \<Rightarrow> Inl e
           | Inr k \<Rightarrow>
               if k < length conf_list then Inr (m, conf_list ! k, k + 1)
               else Inl IndexError))"

section \<open>The distribution model: \<^verbatim>\<open>get_uncertainty_model\<close>\<close>

text \<open>
  Both quantum notebooks define the same helper (the put notebook names the time \<open>T\<close>):
  \<^verbatim>\<open>
  def get_uncertainty_model(t, num_uncertainty_qubits=3, S=2.0, vol=0.4, r=0.0):
      mu = (r - 0.5 * vol**2) * t + np.log(S)
      sigma = vol * np.sqrt(t)
      mean = np.exp(mu + sigma**2 / 2)
      variance = (np.exp(sigma**2) - 1) * np.exp(2 * mu + sigma**2)
      stddev = np.sqrt(variance)
      low = np.maximum(0, mean - 3 * stddev)
      high = mean + 3 * stddev
      uncertainty_model = LogNormalDistribution(
          num_uncertainty_qubits, mu=mu, sigma=sigma**2, bounds=(low, high))
      return uncertainty_model, low, high
  \<close>
  \<^verbatim>\<open>LogNormalDistribution\<close> is a class of the Qiskit Finance library, not of the
  repository. The helper returns only if the constructor does, so the constructor's
  failures are failures of the helper. The constructor first validates its bounds,
  \<^verbatim>\<open>if not bound[1] - bound[0] > 0: raise ValueError(...)\<close>, and then builds a circuit on
  \<^verbatim>\<open>num_qubits\<close> qubits with \<^verbatim>\<open>2**num_qubits\<close> grid points, which fails with a
  Qiskit error unless there is at least one qubit. When it returns, the object is
  embedded as the record of the arguments it was given; the circuit it holds is not
  modelled.
\<close>

record LogNormalDistribution =
  lnd_num_qubits :: int
  lnd_mu :: real
  lnd_sigma :: real
  lnd_bounds :: "real \<times> real"

definition LogNormalDistribution_init ::
  "int \<Rightarrow> real \<Rightarrow> real \<Rightarrow> real \<times> real \<Rightarrow> failure + LogNormalDistribution" where
  "LogNormalDistribution_init num_qubits mu sigma bounds =
     (if \<not> (snd bounds - fst bounds > 0) then Inl ValueError
      else if num_qubits \<le> 0 then Inl QiskitError
      else Inr \<lparr> lnd_num_qubits = num_qubits, lnd_mu = mu, lnd_sigma = sigma,
                 lnd_bounds = bounds \<rparr>)"

text \<open>One definition per local variable of the helper, in the order of the source.\<close>

definition um_mu :: "real \<Rightarrow> real \<Rightarrow> real \<Rightarrow> real \<Rightarrow> real" where
  "um_mu t S vol r = (r - 0.5 * vol ^ 2) * t + ln S"

definition um_sigma :: "real \<Rightarrow> real \<Rightarrow> real" where
  "um_sigma t vol = vol * sqrt t"

definition um_mean :: "real \<Rightarrow> real \<Rightarrow> real \<Rightarrow> real \<Rightarrow> real" where
  "um_mean t S vol r = exp (um_mu t S vol r + um_sigma t vol ^ 2 / 2)"

definition um_variance :: "real \<Rightarrow> real \<Rightarrow> real \<Rightarrow> real \<Rightarrow> real" where
  "um_variance t S vol r =
     (exp (um_sigma t vol ^ 2) - 1) * exp (2 * um_mu t S vol r + um_sigma t vol ^ 2)"

definition um_stddev :: "real \<Rightarrow> real \<Rightarrow> real \<Rightarrow> real \<Rightarrow> real" where
  "um_stddev t S vol r = sqrt (um_variance t S vol r)"

definition um_low :: "real \<Rightarrow> real \<Rightarrow> real \<Rightarrow> real \<Rightarrow> real" where
  "um_low t S vol r = max 0 (um_mean t S vol r - 3 * um_stddev t S vol r)"

definition um_high :: "real \<Rightarrow> real \<Rightarrow> real \<Rightarrow> real \<Rightarrow> real" where
  "um_high t S vol r = um_mean t S vol r + 3 * um_stddev t S vol r"

text \<open>
  The object the constructor returns for the helper's arguments, when it returns.
\<close>

definition um_uncertainty_model ::
  "real \<Rightarrow> int \<Rightarrow> real \<Rightarrow> real \<Rightarrow> real \<Rightarrow> LogNormalDistribution" where
  "um_uncertainty_model t num_uncertainty_qubits S vol r =
     \<lparr> lnd_num_qubits = num_uncertainty_qubits,
       lnd_mu = um_mu t S vol r,
       lnd_sigma = um_sigma t vol ^ 2,
       lnd_bounds = (um_low t S vol r, um_high t S vol r) \<rparr>"

text \<open>
  For \<open>t < 0\<close> NumPy's square root is \<^verbatim>\<open>nan\<close>, for \<open>S \<le> 0\<close> its logarithm is
  \<^verbatim>\<open>-inf\<close> or \<^verbatim>\<open>nan\<close>: the locals then leave the finite numbers. Otherwise the
  helper computes its locals, calls the constructor, and returns when the constructor
  does. The helper has no check and no \<^verbatim>\<open>raise\<close> of its own.
\<close>

definition get_uncertainty_model ::
  "real \<Rightarrow> int \<Rightarrow> real \<Rightarrow> real \<Rightarrow> real \<Rightarrow> failure + (LogNormalDistribution \<times> real \<times> real)" where
  "get_uncertainty_model t num_uncertainty_qubits S vol r =
     (if t < 0 \<or> S \<le> 0 then Inl NonFinite
      else
        (case LogNormalDistribution_init num_uncertainty_qubits (um_mu t S vol r)
                (um_sigma t vol ^ 2) (um_low t S vol r, um_high t S vol r) of
           Inl e \<Rightarrow> Inl e
         | Inr uncertainty_model \<Rightarrow>
             Inr (uncertainty_model, um_low t S vol r, um_high t S vol r)))"

text \<open>
  The formulas of the specification, in its own words and with its dividend yield \<open>q\<close>,
  to compare with the helper.
\<close>

definition spec_mu :: "real \<Rightarrow> real \<Rightarrow> real \<Rightarrow> real \<Rightarrow> real \<Rightarrow> real" where
  "spec_mu r q vol tau S = (r - q - vol ^ 2 / 2) * tau + ln S"

definition spec_sigma :: "real \<Rightarrow> real \<Rightarrow> real" where
  "spec_sigma vol tau = vol * sqrt tau"

definition spec_mean :: "real \<Rightarrow> real \<Rightarrow> real" where
  "spec_mean m s = exp (m + s ^ 2 / 2)"

definition spec_variance :: "real \<Rightarrow> real \<Rightarrow> real" where
  "spec_variance m s = (exp (s ^ 2) - 1) * exp (2 * m + s ^ 2)"

definition spec_low :: "real \<Rightarrow> real \<Rightarrow> real" where
  "spec_low m s = max 0 (spec_mean m s - 3 * sqrt (spec_variance m s))"

definition spec_high :: "real \<Rightarrow> real \<Rightarrow> real" where
  "spec_high m s = spec_mean m s + 3 * sqrt (spec_variance m s)"

section \<open>The sampling pricer: \<^verbatim>\<open>get_price_call\<close> and \<^verbatim>\<open>get_price_put\<close>\<close>

text \<open>
  \<^verbatim>\<open>
  def get_price_call(T, S=2.0, K=1.896, r=0.0, q=0.0, sigma=0.4, steps=100, N=100000):
      dt = T / steps
      ST = np.log(S) +  np.cumsum(((r - q - (sigma**2)/2)*dt
             + sigma * np.sqrt(dt) * np.random.normal(size=(steps, N))), axis=0)
      paths = np.exp(ST)
      payoffs = np.maximum(paths[-1]-K, 0)
      option_price = np.mean(payoffs)*np.exp(-r*T)
      return option_price
  \<close>
  \<^verbatim>\<open>get_price_put\<close> differs in the payoff line only, \<^verbatim>\<open>np.maximum(K-paths[-1], 0)\<close>.

  The function has no seed and no generator argument: \<^verbatim>\<open>np.random.normal\<close> draws from
  NumPy's process-wide generator. That hidden state is made explicit as \<open>rng\<close>, the
  sequence of standard normal variates the generator will hand out next. A call with
  \<^verbatim>\<open>size=(steps, N)\<close> fills the matrix row by row from the front of the sequence and
  leaves the rest of it as the new state; a negative dimension raises ValueError.
\<close>

type_synonym rng = "nat \<Rightarrow> real"

definition np_random_normal :: "nat \<Rightarrow> nat \<Rightarrow> rng \<Rightarrow> real list list \<times> rng" where
  "np_random_normal steps N g =
     (map (\<lambda>i. map (\<lambda>j. g (i * N + j)) [0 ..< N]) [0 ..< steps],
      \<lambda>k. g (steps * N + k))"

text \<open>\<^verbatim>\<open>np.cumsum(..., axis=0)\<close>: the running sum of the rows of a matrix.\<close>

fun cumsum_rows :: "real list \<Rightarrow> real list list \<Rightarrow> real list list" where
  "cumsum_rows acc [] = []"
| "cumsum_rows acc (row # rows) = map2 (+) acc row # cumsum_rows (map2 (+) acc row) rows"

fun np_cumsum0 :: "real list list \<Rightarrow> real list list" where
  "np_cumsum0 [] = []"
| "np_cumsum0 (row # rows) = row # cumsum_rows row rows"

text \<open>\<^verbatim>\<open>np.mean\<close> of an empty array is \<^verbatim>\<open>nan\<close>.\<close>

definition np_mean :: "real list \<Rightarrow> failure + real" where
  "np_mean xs = (if xs = [] then Inl NonFinite else Inr (sum_list xs / real (length xs)))"

text \<open>
  The first three lines, shared by the two functions: \<open>gbm_paths\<close> is the matrix
  \<^verbatim>\<open>paths\<close> for a given matrix \<open>Z\<close> of draws, \<open>sample_paths\<close> adds the draw and the
  failures. \<^verbatim>\<open>T / steps\<close> raises ZeroDivisionError for \<open>steps = 0\<close>, before anything is
  drawn; for \<open>dt < 0\<close> the square root is \<^verbatim>\<open>nan\<close> and for \<open>S \<le> 0\<close> the logarithm
  is \<^verbatim>\<open>-inf\<close> or \<^verbatim>\<open>nan\<close>, after the draw.
\<close>

definition gbm_paths ::
  "real \<Rightarrow> real \<Rightarrow> real \<Rightarrow> real \<Rightarrow> real \<Rightarrow> int \<Rightarrow> real list list \<Rightarrow> real list list" where
  "gbm_paths T S r q sigma steps Z =
     (let dt = T / real_of_int steps;
          ST = map (map (\<lambda>c. ln S + c))
                 (np_cumsum0 (map (map (\<lambda>z. (r - q - sigma ^ 2 / 2) * dt + sigma * sqrt dt * z)) Z))
      in map (map exp) ST)"

definition sample_paths ::
  "real \<Rightarrow> real \<Rightarrow> real \<Rightarrow> real \<Rightarrow> real \<Rightarrow> int \<Rightarrow> int \<Rightarrow> rng \<Rightarrow> (failure + real list list) \<times> rng" where
  "sample_paths T S r q sigma steps N g =
     (if steps = 0 then (Inl ZeroDivisionError, g)
      else if steps < 0 \<or> N < 0 then (Inl ValueError, g)
      else (if T / real_of_int steps < 0 \<or> S \<le> 0 then Inl NonFinite
            else Inr (gbm_paths T S r q sigma steps (fst (np_random_normal (nat steps) (nat N) g))),
            snd (np_random_normal (nat steps) (nat N) g)))"

definition get_price_call ::
  "real \<Rightarrow> real \<Rightarrow> real \<Rightarrow> real \<Rightarrow> real \<Rightarrow> real \<Rightarrow> int \<Rightarrow> int \<Rightarrow> rng \<Rightarrow> (failure + real) \<times> rng" where
  "get_price_call T S K r q sigma steps N g =
     (case sample_paths T S r q sigma steps N g of
        (Inl e, g') \<Rightarrow> (Inl e, g')
      | (Inr paths, g') \<Rightarrow>
          (case np_mean (map (\<lambda>p. max (p - K) 0) (last paths)) of
             Inl e \<Rightarrow> (Inl e, g')
           | Inr m \<Rightarrow> (Inr (m * exp (- r * T)), g')))"

definition get_price_put ::
  "real \<Rightarrow> real \<Rightarrow> real \<Rightarrow> real \<Rightarrow> real \<Rightarrow> real \<Rightarrow> int \<Rightarrow> int \<Rightarrow> rng \<Rightarrow> (failure + real) \<times> rng" where
  "get_price_put T S K r q sigma steps N g =
     (case sample_paths T S r q sigma steps N g of
        (Inl e, g') \<Rightarrow> (Inl e, g')
      | (Inr paths, g') \<Rightarrow>
          (case np_mean (map (\<lambda>p. max (K - p) 0) (last paths)) of
             Inl e \<Rightarrow> (Inl e, g')
           | Inr m \<Rightarrow> (Inr (m * exp (- r * T)), g')))"

text \<open>
  The terminal log-price in the words of the specification: a draw from the normal
  distribution with the derived parameters \<open>mu\<close> and \<open>sigma\<close>, written as
  \<open>mu + sigma z\<close> for a standardised variate \<open>z\<close>. For path \<open>j\<close> of a matrix drawn
  with \<^verbatim>\<open>size=(steps, N)\<close> from the state \<open>g\<close>, \<open>standardised_draw\<close> is the sum of
  the \<open>steps\<close> variates of column \<open>j\<close> divided by \<open>\<surd>steps\<close>.
\<close>

definition spec_terminal_log_price :: "real \<Rightarrow> real \<Rightarrow> real \<Rightarrow> real \<Rightarrow> real \<Rightarrow> real \<Rightarrow> real" where
  "spec_terminal_log_price r q sigma T S z = spec_mu r q sigma T S + spec_sigma sigma T * z"

definition standardised_draw :: "rng \<Rightarrow> nat \<Rightarrow> nat \<Rightarrow> nat \<Rightarrow> real" where
  "standardised_draw g steps N j = (\<Sum>i<steps. g (i * N + j)) / sqrt (real steps)"

section \<open>The scan with a volatility override\<close>

text \<open>
  The second scan of the quantum call notebook (the put notebook has the same loop):
  \<^verbatim>\<open>
  dt = 1 / 365
  t = dt
  results = []
  conf_list = []
  for i in range(40):
      if i == 20 or i == 21:  # These are really days 21 and 22
          um, low, high = get_uncertainty_model(t, vol=0.9)
      else:
          um, low, high = get_uncertainty_model(t)  # Still at default 40% vol
      res, conf = get_ae_results(um, low, high)
      conf_list.append(conf)
      results.append(res)
      t += dt
  \<close>
  followed by the report above. The body of \<^verbatim>\<open>get_ae_results\<close> is a sequence of calls
  into the Qiskit libraries (amplitude estimation on a sampled simulator), which are not
  part of the repository: it is the parameter \<open>ae\<close>, where \<open>ae i um low high\<close> is what
  the call returns in iteration \<open>i\<close>, the estimate and its interval. The defaults of
  \<^verbatim>\<open>get_uncertainty_model\<close> are written out at the two call sites.
\<close>

definition override_model :: "nat \<Rightarrow> real \<Rightarrow> failure + (LogNormalDistribution \<times> real \<times> real)" where
  "override_model i t =
     (if i = 20 \<or> i = 21 then get_uncertainty_model t 3 2.0 0.9 0.0
      else get_uncertainty_model t 3 2.0 0.4 0.0)"

fun scan_override_loop ::
  "(nat \<Rightarrow> LogNormalDistribution \<Rightarrow> real \<Rightarrow> real \<Rightarrow> real \<times> 'c) \<Rightarrow> real \<Rightarrow> nat list \<Rightarrow>
   real \<Rightarrow> real list \<Rightarrow> 'c list \<Rightarrow> failure + (real list \<times> 'c list)" where
  "scan_override_loop ae dt [] t results conf_list = Inr (results, conf_list)"
| "scan_override_loop ae dt (i # is) t results conf_list =
     (case override_model i t of
        Inl e \<Rightarrow> Inl e
      | Inr (um, low, high) \<Rightarrow>
          scan_override_loop ae dt is (t + dt)
            (results @ [fst (ae i um low high)]) (conf_list @ [snd (ae i um low high)]))"

definition scan_override ::
  "(nat \<Rightarrow> LogNormalDistribution \<Rightarrow> real \<Rightarrow> real \<Rightarrow> real \<times> 'c) \<Rightarrow> failure + (real list \<times> 'c list)" where
  "scan_override ae = scan_override_loop ae (1 / 365) [0 ..< 40] (1 / 365) [] []"

definition lookback_override ::
  "(nat \<Rightarrow> LogNormalDistribution \<Rightarrow> real \<Rightarrow> real \<Rightarrow> real \<times> 'c) \<Rightarrow> failure + (real \<times> 'c \<times> nat)" where
  "lookback_override ae =
     (case scan_override ae of
        Inl e \<Rightarrow> Inl e
      | Inr (results, conf_list) \<Rightarrow> lookback_report results conf_list)"

section \<open>Properties of the extremum selection\<close>

lemma fold_max_ge_init: "(a::real) \<le> fold max xs a"
proof (induction xs arbitrary: a)
  case Nil
  show ?case by simp
next
  case (Cons x xs)
  have "a \<le> max x a" by simp
  also have "\<dots> \<le> fold max xs (max x a)" by (rule Cons.IH)
  finally show ?case by simp
qed

lemma fold_max_ge_elem: "x \<in> set xs \<Longrightarrow> (x::real) \<le> fold max xs a"
proof (induction xs arbitrary: a)
  case Nil
  then show ?case by simp
next
  case (Cons y ys)
  show ?case
  proof (cases "x = y")
    case True
    have "x \<le> max y a" using True by simp
    also have "\<dots> \<le> fold max ys (max y a)" by (rule fold_max_ge_init)
    finally show ?thesis by simp
  next
    case False
    with Cons.prems have "x \<in> set ys" by simp
    then show ?thesis using Cons.IH by simp
  qed
qed

lemma fold_max_mem: "fold max xs (a::real) \<in> insert a (set xs)"
proof (induction xs arbitrary: a)
  case Nil
  show ?case by simp
next
  case (Cons y ys)
  have "fold max ys (max y a) \<in> insert (max y a) (set ys)" by (rule Cons.IH)
  moreover have "max y a = y \<or> max y a = a" by (auto simp: max_def)
  ultimately show ?case by auto
qed

lemma argmax_loop_first_max:
  assumes "mi < length ys" and "mv = ys ! mi"
    and "\<forall>j < length ys. ys ! j \<le> mv"
    and "\<forall>j < mi. ys ! j < mv"
  shows "argmax_loop mv mi (length ys) xs < length (ys @ xs) \<and>
         (\<forall>j < length (ys @ xs). (ys @ xs) ! j \<le> (ys @ xs) ! argmax_loop mv mi (length ys) xs) \<and>
         (\<forall>j < argmax_loop mv mi (length ys) xs.
            (ys @ xs) ! j < (ys @ xs) ! argmax_loop mv mi (length ys) xs)"
  using assms
proof (induction xs arbitrary: ys mv mi)
  case Nil
  then show ?case by simp
next
  case (Cons x xs)
  let ?zs = "ys @ [x]"
  show ?case
  proof (cases "mv < x")
    case True
    have a1: "length ys < length ?zs" by simp
    have a2: "x = ?zs ! length ys" by simp
    have a3: "\<forall>j < length ?zs. ?zs ! j \<le> x"
    proof (intro allI impI)
      fix j assume "j < length ?zs"
      then consider "j < length ys" | "j = length ys" by fastforce
      then show "?zs ! j \<le> x"
      proof cases
        case 1
        then have "?zs ! j = ys ! j" by (simp add: nth_append)
        also have "\<dots> \<le> mv" using Cons.prems(3) 1 by simp
        finally show ?thesis using True by simp
      next
        case 2
        then show ?thesis by simp
      qed
    qed
    have a4: "\<forall>j < length ys. ?zs ! j < x"
    proof (intro allI impI)
      fix j assume j: "j < length ys"
      then have "?zs ! j = ys ! j" by (simp add: nth_append)
      also have "\<dots> \<le> mv" using Cons.prems(3) j by simp
      finally show "?zs ! j < x" using True by simp
    qed
    from Cons.IH [OF a1 a2 a3 a4] True show ?thesis by simp
  next
    case False
    have b1: "mi < length ?zs" using Cons.prems(1) by simp
    have b2: "mv = ?zs ! mi" using Cons.prems(1,2) by (simp add: nth_append)
    have b3: "\<forall>j < length ?zs. ?zs ! j \<le> mv"
    proof (intro allI impI)
      fix j assume "j < length ?zs"
      then consider "j < length ys" | "j = length ys" by fastforce
      then show "?zs ! j \<le> mv"
      proof cases
        case 1
        then show ?thesis using Cons.prems(3) by (simp add: nth_append)
      next
        case 2
        then show ?thesis using False by simp
      qed
    qed
    have b4: "\<forall>j < mi. ?zs ! j < mv"
      using Cons.prems(1,4) by (simp add: nth_append)
    from Cons.IH [OF b1 b2 b3 b4] False show ?thesis by simp
  qed
qed

lemma np_argmax_first_max:
  assumes "results \<noteq> []"
  obtains k where "np_argmax results = Inr k" and "k < length results"
    and "\<forall>j < length results. results ! j \<le> results ! k"
    and "\<forall>j < k. results ! j < results ! k"
proof -
  from assms obtain x xs where r: "results = x # xs" by (cases results) auto
  have "argmax_loop x 0 (length [x]) xs < length ([x] @ xs) \<and>
        (\<forall>j < length ([x] @ xs). ([x] @ xs) ! j \<le> ([x] @ xs) ! argmax_loop x 0 (length [x]) xs) \<and>
        (\<forall>j < argmax_loop x 0 (length [x]) xs.
           ([x] @ xs) ! j < ([x] @ xs) ! argmax_loop x 0 (length [x]) xs)"
    by (rule argmax_loop_first_max) simp_all
  then show thesis using r that [of "argmax_loop x 0 1 xs"] by simp
qed

lemma np_amax_is_max:
  assumes "np_argmax results = Inr k" and "k < length results"
    and "\<forall>j < length results. results ! j \<le> results ! k"
  shows "np_amax results = Inr (results ! k)"
proof -
  from assms(2) obtain x xs where r: "results = x # xs" by (cases results) auto
  let ?m = "fold max xs x"
  have "?m \<in> insert x (set xs)" by (rule fold_max_mem)
  then have "?m \<in> set results" using r by simp
  then obtain i where i: "i < length results" "results ! i = ?m"
    by (auto simp: in_set_conv_nth)
  then have le: "?m \<le> results ! k" using assms(3) by auto
  have "results ! k \<in> set results" using assms(2) by simp
  then have "results ! k = x \<or> results ! k \<in> set xs" using r by auto
  then have "results ! k \<le> ?m"
    using fold_max_ge_init [of x xs] fold_max_ge_elem [of "results ! k" xs x] by auto
  with le have "?m = results ! k" by simp
  then show ?thesis using r by simp
qed

text \<open>
  C2. For a non-empty list of per-day estimates with one stored interval per day, the
  report is the triple (estimate, interval, day) of one position \<open>k\<close>: the estimate at \<open>k\<close>
  is a maximum of the list (never a minimum, the same code closes the call and the put
  notebooks), every earlier estimate is strictly smaller (ties go to the earliest day),
  the interval is the one stored at \<open>k\<close>, unchanged, and the day is \<open>k + 1\<close>.
\<close>

theorem lookback_report_first_maximum:
  assumes "results \<noteq> []" and "length conf_list = length results"
  shows "\<exists>k < length results.
           lookback_report results conf_list = Inr (results ! k, conf_list ! k, k + 1) \<and>
           (\<forall>j < length results. results ! j \<le> results ! k) \<and>
           (\<forall>j < k. results ! j < results ! k)"
proof -
  from assms(1) obtain k where k: "np_argmax results = Inr k" "k < length results"
    "\<forall>j < length results. results ! j \<le> results ! k" "\<forall>j < k. results ! j < results ! k"
    by (rule np_argmax_first_max)
  have m: "np_amax results = Inr (results ! k)"
    using k(1,2,3) by (rule np_amax_is_max)
  have "lookback_report results conf_list = Inr (results ! k, conf_list ! k, k + 1)"
    using k(1,2) m assms(2) by (simp add: lookback_report_def)
  with k show ?thesis by blast
qed

theorem lookback_report_first_maximum_witness:
  "[1, 3, 3, 2 :: real] \<noteq> [] \<and>
   length [(0 :: real, 2 :: real), (2, 4), (5, 6), (1, 3)] = length [1, 3, 3, 2 :: real] \<and>
   lookback_report [1, 3, 3, 2] [(0 :: real, 2 :: real), (2, 4), (5, 6), (1, 3)]
     = Inr (3, (2, 4), 2)"
proof -
  have "lookback_report [1, 3, 3, 2] [(0 :: real, 2 :: real), (2, 4), (5, 6), (1, 3)]
          = Inr (3, (2, 4), 2)"
    by (simp add: lookback_report_def)
  then show ?thesis
    using lookback_report_first_maximum
      [of "[1, 3, 3, 2]" "[(0 :: real, 2 :: real), (2, 4), (5, 6), (1, 3)]"]
    by simp
qed

section \<open>Properties of the distribution model\<close>

lemma um_mean_pos: "0 < um_mean t S vol r"
  by (simp add: um_mean_def)

lemma um_variance_nonneg: "0 \<le> um_variance t S vol r"
proof -
  have "0 \<le> um_sigma t vol ^ 2" by simp
  then have "1 \<le> exp (um_sigma t vol ^ 2)" by simp
  then show ?thesis by (simp add: um_variance_def)
qed

lemma um_variance_pos:
  assumes "um_sigma t vol \<noteq> 0"
  shows "0 < um_variance t S vol r"
proof -
  have "0 < um_sigma t vol ^ 2" using assms by simp
  then have "1 < exp (um_sigma t vol ^ 2)" by simp
  then show ?thesis by (simp add: um_variance_def)
qed

lemma um_stddev_nonneg: "0 \<le> um_stddev t S vol r"
  by (simp add: um_stddev_def um_variance_nonneg)

lemma um_stddev_pos: "um_sigma t vol \<noteq> 0 \<Longrightarrow> 0 < um_stddev t S vol r"
  by (simp add: um_stddev_def um_variance_pos)

lemma um_variance_zero: "um_sigma t vol = 0 \<Longrightarrow> um_variance t S vol r = 0"
  by (simp add: um_variance_def)

lemma um_low_nonneg: "0 \<le> um_low t S vol r"
  by (simp add: um_low_def)

lemma um_low_less_high:
  assumes "um_sigma t vol \<noteq> 0"
  shows "um_low t S vol r < um_high t S vol r"
proof -
  have sd: "0 < um_stddev t S vol r" using assms by (rule um_stddev_pos)
  have m: "0 < um_mean t S vol r" by (rule um_mean_pos)
  have "0 < um_high t S vol r" using sd m by (simp add: um_high_def)
  moreover have "um_mean t S vol r - 3 * um_stddev t S vol r < um_high t S vol r"
    using sd by (simp add: um_high_def)
  ultimately show ?thesis by (simp add: um_low_def)
qed

lemma um_sigma_nonneg: "0 \<le> t \<Longrightarrow> 0 \<le> vol \<Longrightarrow> 0 \<le> um_sigma t vol"
  by (simp add: um_sigma_def)

lemma um_sigma_nonzero: "0 < t \<Longrightarrow> vol \<noteq> 0 \<Longrightarrow> um_sigma t vol \<noteq> 0"
  by (simp add: um_sigma_def)

lemma um_low_eq_high:
  assumes "um_sigma t vol = 0"
  shows "um_low t S vol r = um_high t S vol r"
proof -
  have "um_stddev t S vol r = 0"
    using um_variance_zero [OF assms] by (simp add: um_stddev_def)
  moreover have "0 < um_mean t S vol r" by (rule um_mean_pos)
  ultimately show ?thesis by (simp add: um_low_def um_high_def)
qed

lemma um_low_le_high: "um_low t S vol r \<le> um_high t S vol r"
proof (cases "um_sigma t vol = 0")
  case True
  then show ?thesis by (simp add: um_low_eq_high)
next
  case False
  then show ?thesis using um_low_less_high [of t vol S r] by simp
qed

text \<open>
  The helper returns exactly when the bounds it hands to the constructor are a
  non-empty interval (for at least one qubit); with collapsed bounds it raises the
  constructor's ValueError.
\<close>

lemma get_uncertainty_model_returns:
  assumes "0 \<le> t" and "0 < S" and "um_low t S vol r < um_high t S vol r" and "0 < n"
  shows "get_uncertainty_model t n S vol r
           = Inr (um_uncertainty_model t n S vol r, um_low t S vol r, um_high t S vol r)"
  using assms
  by (simp add: get_uncertainty_model_def LogNormalDistribution_init_def
      um_uncertainty_model_def)

lemma get_uncertainty_model_raises:
  assumes "0 \<le> t" and "0 < S" and "um_high t S vol r \<le> um_low t S vol r"
  shows "get_uncertainty_model t n S vol r = Inl ValueError"
  using assms by (simp add: get_uncertainty_model_def LogNormalDistribution_init_def)

text \<open>
  A worked input with rational results: \<open>t = 1\<close>, \<open>S = 2\<close>, \<open>r = 0\<close> and
  \<open>vol\<^sup>2 = ln (37/36)\<close> give mean \<open>2\<close>, variance \<open>1/9\<close>, standard deviation \<open>1/3\<close> and
  the bounds \<open>1\<close> and \<open>3\<close>.
\<close>

lemma um_worked_input:
  "um_sigma 1 (sqrt (ln (37 / 36))) ^ 2 = ln (37 / 36)"
  "um_mu 1 2 (sqrt (ln (37 / 36))) 0 = ln 2 - ln (37 / 36) / 2"
  "um_mean 1 2 (sqrt (ln (37 / 36))) 0 = 2"
  "um_variance 1 2 (sqrt (ln (37 / 36))) 0 = 1 / 9"
  "um_stddev 1 2 (sqrt (ln (37 / 36))) 0 = 1 / 3"
  "um_low 1 2 (sqrt (ln (37 / 36))) 0 = 1"
  "um_high 1 2 (sqrt (ln (37 / 36))) 0 = 3"
proof -
  have p: "(0::real) \<le> ln (37 / 36)" by simp
  show sg: "um_sigma 1 (sqrt (ln (37 / 36))) ^ 2 = ln (37 / 36)"
    using p by (simp add: um_sigma_def)
  show mu: "um_mu 1 2 (sqrt (ln (37 / 36))) 0 = ln 2 - ln (37 / 36) / 2"
    using p by (simp add: um_mu_def)
  show mean: "um_mean 1 2 (sqrt (ln (37 / 36))) 0 = 2"
    by (simp add: um_mean_def sg mu)
  have "2 * ln (2::real) = ln 4" using ln_realpow [of 2 2] by simp
  then have e: "exp (2 * ln (2::real)) = 4" by simp
  have "2 * (ln 2 - ln (37 / 36) / 2) + ln (37 / 36) = 2 * ln (2::real)" by simp
  then show var: "um_variance 1 2 (sqrt (ln (37 / 36))) 0 = 1 / 9"
    by (simp add: um_variance_def sg mu e)
  have "sqrt (1 / 9) = (1 / 3 :: real)"
    by (rule real_sqrt_unique) (simp_all add: power2_eq_square)
  then show sd: "um_stddev 1 2 (sqrt (ln (37 / 36))) 0 = 1 / 3"
    by (simp add: um_stddev_def var)
  show "um_low 1 2 (sqrt (ln (37 / 36))) 0 = 1"
    by (simp add: um_low_def mean sd)
  show "um_high 1 2 (sqrt (ln (37 / 36))) 0 = 3"
    by (simp add: um_high_def mean sd)
qed

text \<open>
  C1 (as the code has it). The helper takes no dividend yield. For \<open>tau > 0\<close> and
  \<open>S > 0\<close> its locals are the formulas of the specification at \<open>q = 0\<close>:
  \<open>mu = (r - vol\<^sup>2/2) tau + ln S\<close>, \<open>sigma = vol \<surd>tau\<close>, the log-normal mean
  \<open>exp (mu + sigma\<^sup>2/2)\<close>, the variance \<open>(exp (sigma\<^sup>2) - 1) exp (2 mu + sigma\<^sup>2)\<close>, its
  square root as standard deviation, and the bounds \<open>max 0 (mean - 3 stddev)\<close> and
  \<open>mean + 3 stddev\<close>. For \<open>vol \<noteq> 0\<close> and at least one qubit the helper returns these
  two bounds, with the distribution object built from \<open>mu\<close>, \<open>sigma\<^sup>2\<close> and the bounds.
\<close>

theorem get_uncertainty_model_formulas:
  assumes "0 < tau" and "0 < S" and "vol \<noteq> 0" and "0 < n"
  shows "um_mu tau S vol r = spec_mu r 0 vol tau S \<and>
         um_sigma tau vol = spec_sigma vol tau \<and>
         um_mean tau S vol r = spec_mean (spec_mu r 0 vol tau S) (spec_sigma vol tau) \<and>
         um_variance tau S vol r = spec_variance (spec_mu r 0 vol tau S) (spec_sigma vol tau) \<and>
         um_stddev tau S vol r = sqrt (spec_variance (spec_mu r 0 vol tau S) (spec_sigma vol tau)) \<and>
         get_uncertainty_model tau n S vol r =
           Inr (\<lparr> lnd_num_qubits = n,
                   lnd_mu = spec_mu r 0 vol tau S,
                   lnd_sigma = spec_sigma vol tau ^ 2,
                   lnd_bounds = (spec_low (spec_mu r 0 vol tau S) (spec_sigma vol tau),
                                 spec_high (spec_mu r 0 vol tau S) (spec_sigma vol tau)) \<rparr>,
                spec_low (spec_mu r 0 vol tau S) (spec_sigma vol tau),
                spec_high (spec_mu r 0 vol tau S) (spec_sigma vol tau))"
proof -
  have mu: "um_mu tau S vol r = spec_mu r 0 vol tau S"
    by (simp add: um_mu_def spec_mu_def)
  have sg: "um_sigma tau vol = spec_sigma vol tau"
    by (simp add: um_sigma_def spec_sigma_def)
  have mean: "um_mean tau S vol r = spec_mean (spec_mu r 0 vol tau S) (spec_sigma vol tau)"
    by (simp add: um_mean_def spec_mean_def mu sg)
  have var: "um_variance tau S vol r
               = spec_variance (spec_mu r 0 vol tau S) (spec_sigma vol tau)"
    by (simp add: um_variance_def spec_variance_def mu sg)
  have sd: "um_stddev tau S vol r
              = sqrt (spec_variance (spec_mu r 0 vol tau S) (spec_sigma vol tau))"
    by (simp add: um_stddev_def var)
  have lo: "um_low tau S vol r = spec_low (spec_mu r 0 vol tau S) (spec_sigma vol tau)"
    by (simp add: um_low_def spec_low_def mean sd)
  have hi: "um_high tau S vol r = spec_high (spec_mu r 0 vol tau S) (spec_sigma vol tau)"
    by (simp add: um_high_def spec_high_def mean sd)
  have "um_sigma tau vol \<noteq> 0" using assms(1,3) by (rule um_sigma_nonzero)
  then have "um_low tau S vol r < um_high tau S vol r" by (rule um_low_less_high)
  then have "get_uncertainty_model tau n S vol r
      = Inr (um_uncertainty_model tau n S vol r, um_low tau S vol r, um_high tau S vol r)"
    using assms by (intro get_uncertainty_model_returns) simp_all
  then have "get_uncertainty_model tau n S vol r =
           Inr (\<lparr> lnd_num_qubits = n,
                   lnd_mu = spec_mu r 0 vol tau S,
                   lnd_sigma = spec_sigma vol tau ^ 2,
                   lnd_bounds = (spec_low (spec_mu r 0 vol tau S) (spec_sigma vol tau),
                                 spec_high (spec_mu r 0 vol tau S) (spec_sigma vol tau)) \<rparr>,
                spec_low (spec_mu r 0 vol tau S) (spec_sigma vol tau),
                spec_high (spec_mu r 0 vol tau S) (spec_sigma vol tau))"
    by (simp add: um_uncertainty_model_def mu sg lo hi)
  with mu sg mean var sd show ?thesis by blast
qed

theorem get_uncertainty_model_formulas_witness:
  "(0::real) < 1 \<and> (0::real) < 2 \<and> sqrt (ln (37 / 36)) \<noteq> (0::real) \<and> (0::int) < 3 \<and>
   spec_mu 0 0 (sqrt (ln (37 / 36))) 1 2 = ln 2 - ln (37 / 36) / 2 \<and>
   spec_sigma (sqrt (ln (37 / 36))) 1 ^ 2 = ln (37 / 36) \<and>
   spec_mean (spec_mu 0 0 (sqrt (ln (37 / 36))) 1 2) (spec_sigma (sqrt (ln (37 / 36))) 1) = 2 \<and>
   spec_variance (spec_mu 0 0 (sqrt (ln (37 / 36))) 1 2) (spec_sigma (sqrt (ln (37 / 36))) 1)
     = 1 / 9 \<and>
   spec_low (spec_mu 0 0 (sqrt (ln (37 / 36))) 1 2) (spec_sigma (sqrt (ln (37 / 36))) 1) = 1 \<and>
   spec_high (spec_mu 0 0 (sqrt (ln (37 / 36))) 1 2) (spec_sigma (sqrt (ln (37 / 36))) 1) = 3 \<and>
   get_uncertainty_model 1 3 2 (sqrt (ln (37 / 36))) 0 =
     Inr (\<lparr> lnd_num_qubits = 3, lnd_mu = ln 2 - ln (37 / 36) / 2,
             lnd_sigma = ln (37 / 36), lnd_bounds = (1, 3) \<rparr>, 1, 3)"
proof -
  let ?v = "sqrt (ln (37 / 36)) :: real"
  let ?m = "spec_mu 0 0 ?v 1 2" and ?s = "spec_sigma ?v 1"
  have v: "?v \<noteq> 0" by simp
  have f: "um_mu 1 2 ?v 0 = ?m \<and> um_sigma 1 ?v = ?s \<and>
           um_mean 1 2 ?v 0 = spec_mean ?m ?s \<and>
           um_variance 1 2 ?v 0 = spec_variance ?m ?s \<and>
           um_stddev 1 2 ?v 0 = sqrt (spec_variance ?m ?s) \<and>
           get_uncertainty_model 1 3 2 ?v 0 =
             Inr (\<lparr> lnd_num_qubits = 3, lnd_mu = ?m, lnd_sigma = ?s ^ 2,
                     lnd_bounds = (spec_low ?m ?s, spec_high ?m ?s) \<rparr>,
                  spec_low ?m ?s, spec_high ?m ?s)"
    by (rule get_uncertainty_model_formulas) simp_all
  from f have m: "?m = ln 2 - ln (37 / 36) / 2"
    using um_worked_input(2) by (elim conjE) (simp only:)
  from f have s2: "?s ^ 2 = ln (37 / 36)"
    using um_worked_input(1) by (elim conjE) (simp only:)
  from f have mean: "spec_mean ?m ?s = 2"
    using um_worked_input(3) by (elim conjE) (simp only:)
  from f have var: "spec_variance ?m ?s = 1 / 9"
    using um_worked_input(4) by (elim conjE) (simp only:)
  from f have sd: "sqrt (spec_variance ?m ?s) = 1 / 3"
    using um_worked_input(5) by (elim conjE) (simp only:)
  have lo: "spec_low ?m ?s = 1"
    unfolding spec_low_def mean sd by simp
  have hi: "spec_high ?m ?s = 3"
    unfolding spec_high_def mean sd by simp
  from f have "get_uncertainty_model 1 3 2 ?v 0 =
             Inr (\<lparr> lnd_num_qubits = 3, lnd_mu = ?m, lnd_sigma = ?s ^ 2,
                     lnd_bounds = (spec_low ?m ?s, spec_high ?m ?s) \<rparr>,
                  spec_low ?m ?s, spec_high ?m ?s)"
    by (elim conjE)
  then have g: "get_uncertainty_model 1 3 2 ?v 0 =
     Inr (\<lparr> lnd_num_qubits = 3, lnd_mu = ln 2 - ln (37 / 36) / 2,
             lnd_sigma = ln (37 / 36), lnd_bounds = (1, 3) \<rparr>, 1, 3)"
    by (simp only: lo [unfolded m] hi [unfolded m] s2 m)
  show ?thesis by (intro conjI v m s2 mean var lo hi g) simp_all
qed

text \<open>
  The formula of the specification with a dividend yield is not the helper's: at
  \<open>tau = 1\<close>, \<open>S = 2\<close>, \<open>vol\<^sup>2 = ln (37/36)\<close>, \<open>r = 0\<close> the helper returns a
  distribution with \<open>mu = ln 2 - ln (37/36) / 2\<close>, and the specification's \<open>mu\<close> for
  \<open>q = 1\<close> is smaller by \<open>1\<close>.
\<close>

theorem get_uncertainty_model_ignores_dividend:
  "get_uncertainty_model 1 3 2 (sqrt (ln (37 / 36))) 0 =
     Inr (\<lparr> lnd_num_qubits = 3, lnd_mu = ln 2 - ln (37 / 36) / 2,
             lnd_sigma = ln (37 / 36), lnd_bounds = (1, 3) \<rparr>, 1, 3) \<and>
   spec_mu 0 1 (sqrt (ln (37 / 36))) 1 2 = ln 2 - ln (37 / 36) / 2 - 1 \<and>
   ln 2 - ln (37 / 36) / 2 \<noteq> spec_mu 0 1 (sqrt (ln (37 / 36))) 1 2"
proof -
  have "um_low 1 2 (sqrt (ln (37 / 36))) 0 < um_high 1 2 (sqrt (ln (37 / 36))) 0"
    by (simp add: um_worked_input)
  then have "get_uncertainty_model 1 3 2 (sqrt (ln (37 / 36))) 0
      = Inr (um_uncertainty_model 1 3 2 (sqrt (ln (37 / 36))) 0,
             um_low 1 2 (sqrt (ln (37 / 36))) 0, um_high 1 2 (sqrt (ln (37 / 36))) 0)"
    by (intro get_uncertainty_model_returns) simp_all
  moreover have "spec_mu 0 1 (sqrt (ln (37 / 36))) 1 2 = ln 2 - ln (37 / 36) / 2 - 1"
    by (simp add: spec_mu_def)
  ultimately show ?thesis
    by (simp add: um_uncertainty_model_def um_worked_input)
qed

text \<open>
  C5. For valid parameters (\<open>tau \<ge> 0\<close>, \<open>S > 0\<close>, \<open>vol \<ge> 0\<close>, at least one qubit)
  constructing the distribution model fails whenever \<open>sigma \<le> 0\<close> or \<open>high \<le> low\<close>,
  as for \<open>tau = 0\<close>: the helper raises the ValueError of the constructor's bounds
  check, which is the degenerate-distribution error of the code. It fails in exactly
  these cases: otherwise it returns its model, with \<open>sigma > 0\<close> and \<open>low < high\<close>, so
  it never returns a degenerate model.
\<close>

theorem get_uncertainty_model_degenerate_iff:
  assumes "0 \<le> tau" and "0 < S" and "0 \<le> vol" and "0 < n"
  shows "(um_sigma tau vol \<le> 0 \<or> um_high tau S vol r \<le> um_low tau S vol r \<longrightarrow>
            get_uncertainty_model tau n S vol r = Inl ValueError) \<and>
         (\<not> (um_sigma tau vol \<le> 0 \<or> um_high tau S vol r \<le> um_low tau S vol r) \<longrightarrow>
            get_uncertainty_model tau n S vol r
              = Inr (um_uncertainty_model tau n S vol r, um_low tau S vol r, um_high tau S vol r) \<and>
            0 < um_sigma tau vol \<and> um_low tau S vol r < um_high tau S vol r)"
proof (intro conjI impI)
  assume d: "um_sigma tau vol \<le> 0 \<or> um_high tau S vol r \<le> um_low tau S vol r"
  have "um_high tau S vol r \<le> um_low tau S vol r"
  proof (cases "um_sigma tau vol \<le> 0")
    case True
    moreover have "0 \<le> um_sigma tau vol" using assms(1,3) by (rule um_sigma_nonneg)
    ultimately have "um_sigma tau vol = 0" by simp
    then show ?thesis by (simp add: um_low_eq_high)
  next
    case False
    with d show ?thesis by simp
  qed
  with assms(1,2) show "get_uncertainty_model tau n S vol r = Inl ValueError"
    by (rule get_uncertainty_model_raises)
next
  assume nd: "\<not> (um_sigma tau vol \<le> 0 \<or> um_high tau S vol r \<le> um_low tau S vol r)"
  then have lt: "um_low tau S vol r < um_high tau S vol r" by simp
  with assms(1,2) show "get_uncertainty_model tau n S vol r
      = Inr (um_uncertainty_model tau n S vol r, um_low tau S vol r, um_high tau S vol r)"
    using assms(4) by (rule get_uncertainty_model_returns)
  from nd show "0 < um_sigma tau vol" by simp
  from lt show "um_low tau S vol r < um_high tau S vol r" .
qed

theorem get_uncertainty_model_degenerate_iff_witness:
  "(0::real) \<le> 0 \<and> (0::real) \<le> 1 \<and> (0::real) < 2 \<and> (0::real) \<le> 0.4 \<and>
   (0::real) \<le> sqrt (ln (37 / 36)) \<and> (0::int) < 3 \<and>
   um_sigma 0 0.4 \<le> 0 \<and> um_high 0 2 0.4 0 \<le> um_low 0 2 0.4 0 \<and>
   get_uncertainty_model 0 3 2 0.4 0 = Inl ValueError \<and>
   0 < um_sigma 1 (sqrt (ln (37 / 36))) \<and>
   um_low 1 2 (sqrt (ln (37 / 36))) 0 < um_high 1 2 (sqrt (ln (37 / 36))) 0 \<and>
   get_uncertainty_model 1 3 2 (sqrt (ln (37 / 36))) 0
     = Inr (um_uncertainty_model 1 3 2 (sqrt (ln (37 / 36))) 0, 1, 3)"
proof -
  have z: "um_sigma 0 0.4 \<le> 0" by (simp add: um_sigma_def)
  then have eq: "um_high 0 2 0.4 0 \<le> um_low 0 2 0.4 0"
    by (simp add: um_low_eq_high um_sigma_def)
  have a: "get_uncertainty_model 0 3 2 0.4 0 = Inl ValueError"
    using get_uncertainty_model_degenerate_iff [of 0 2 "0.4" 3 0] z by simp
  have p: "0 < um_sigma 1 (sqrt (ln (37 / 36)))" by (simp add: um_sigma_def)
  have lt: "um_low 1 2 (sqrt (ln (37 / 36))) 0 < um_high 1 2 (sqrt (ln (37 / 36))) 0"
    by (simp add: um_worked_input)
  have b: "get_uncertainty_model 1 3 2 (sqrt (ln (37 / 36))) 0
     = Inr (um_uncertainty_model 1 3 2 (sqrt (ln (37 / 36))) 0, 1, 3)"
    using get_uncertainty_model_degenerate_iff [of 1 2 "sqrt (ln (37 / 36))" 3 0] p lt
    by (simp add: um_worked_input)
  from z eq a p lt b show ?thesis by simp
qed

section \<open>Properties of the sampling pricer\<close>

lemma cumsum_rows_last:
  assumes "rows \<noteq> []" and "\<forall>row \<in> set rows. length row = length acc"
  shows "length (last (cumsum_rows acc rows)) = length acc \<and>
         (\<forall>j < length acc. last (cumsum_rows acc rows) ! j = acc ! j + (\<Sum>row\<leftarrow>rows. row ! j))"
  using assms
proof (induction rows arbitrary: acc)
  case Nil
  then show ?case by simp
next
  case (Cons row rest)
  let ?acc = "map2 (+) acc row"
  have lr: "length row = length acc" using Cons.prems(2) by simp
  have la: "length ?acc = length acc" using lr by simp
  have nj: "\<forall>j < length acc. ?acc ! j = acc ! j + row ! j" using lr by simp
  show ?case
  proof (cases "rest = []")
    case True
    then show ?thesis using la nj by simp
  next
    case False
    have "\<forall>r \<in> set rest. length r = length ?acc" using Cons.prems(2) la by simp
    then have "length (last (cumsum_rows ?acc rest)) = length ?acc \<and>
        (\<forall>j < length ?acc. last (cumsum_rows ?acc rest) ! j = ?acc ! j + (\<Sum>r\<leftarrow>rest. r ! j))"
      using Cons.IH [OF False] by blast
    moreover have "cumsum_rows ?acc rest \<noteq> []" using False by (cases rest) simp_all
    ultimately show ?thesis using la nj by simp
  qed
qed

lemma np_cumsum0_last:
  assumes "rows \<noteq> []" and "\<forall>row \<in> set rows. length row = n"
  shows "length (last (np_cumsum0 rows)) = n \<and>
         (\<forall>j < n. last (np_cumsum0 rows) ! j = (\<Sum>row\<leftarrow>rows. row ! j))"
proof -
  from assms(1) obtain row rest where r: "rows = row # rest" by (cases rows) auto
  have lr: "length row = n" using assms(2) r by simp
  show ?thesis
  proof (cases "rest = []")
    case True
    then show ?thesis using r lr by simp
  next
    case False
    have "\<forall>x \<in> set rest. length x = length row" using assms(2) r by simp
    then have "length (last (cumsum_rows row rest)) = length row \<and>
        (\<forall>j < length row. last (cumsum_rows row rest) ! j = row ! j + (\<Sum>x\<leftarrow>rest. x ! j))"
      using cumsum_rows_last [OF False] by blast
    moreover have "cumsum_rows row rest \<noteq> []" using False by (cases rest) simp_all
    ultimately show ?thesis using r lr by simp
  qed
qed

lemma np_cumsum0_nonempty: "rows \<noteq> [] \<Longrightarrow> np_cumsum0 rows \<noteq> []"
  by (cases rows) simp_all

lemma gbm_paths_last:
  assumes "0 < steps"
  shows "length (last (gbm_paths T S r q sigma (int steps) (fst (np_random_normal steps N g)))) = N \<and>
         (\<forall>j < N. last (gbm_paths T S r q sigma (int steps) (fst (np_random_normal steps N g))) ! j
           = exp (ln S + (\<Sum>i<steps. (r - q - sigma ^ 2 / 2) * (T / real steps)
                                       + sigma * sqrt (T / real steps) * g (i * N + j))))"
proof -
  let ?f = "\<lambda>z. (r - q - sigma ^ 2 / 2) * (T / real steps) + sigma * sqrt (T / real steps) * z"
  let ?Z = "fst (np_random_normal steps N g)"
  let ?W = "map (map ?f) ?Z"
  have ne: "?W \<noteq> []" using assms(1) by (simp add: np_random_normal_def)
  have len: "\<forall>row \<in> set ?W. length row = N" by (auto simp: np_random_normal_def)
  have c: "length (last (np_cumsum0 ?W)) = N \<and>
           (\<forall>j < N. last (np_cumsum0 ?W) ! j = (\<Sum>row\<leftarrow>?W. row ! j))"
    using ne len by (rule np_cumsum0_last)
  have s: "(\<Sum>row\<leftarrow>?W. row ! j) = (\<Sum>i<steps. ?f (g (i * N + j)))" if "j < N" for j
  proof -
    have "(\<Sum>row\<leftarrow>?W. row ! j) = (\<Sum>i\<leftarrow>[0..<steps]. ?f (g (i * N + j)))"
      using that by (simp add: np_random_normal_def comp_def)
    also have "\<dots> = (\<Sum>i<steps. ?f (g (i * N + j)))"
      by (simp add: interv_sum_list_conv_sum_set_nat atLeast0LessThan)
    finally show ?thesis .
  qed
  have cne: "np_cumsum0 ?W \<noteq> []" using ne by (rule np_cumsum0_nonempty)
  have "last (gbm_paths T S r q sigma (int steps) ?Z)
          = map exp (map (\<lambda>c. ln S + c) (last (np_cumsum0 ?W)))"
    using cne by (simp add: gbm_paths_def Let_def last_map)
  then show ?thesis using c s by simp
qed

lemma drift_diffusion_sum:
  assumes "0 < steps"
  shows "(\<Sum>i<steps. a * (T / real steps) + b * z i) = a * T + b * (\<Sum>i<steps. z i)"
proof -
  have "(\<Sum>i<steps. a * (T / real steps) + b * z i)
          = (\<Sum>i<steps. a * (T / real steps)) + (\<Sum>i<steps. b * z i)"
    by (rule sum.distrib)
  also have "(\<Sum>i<steps. a * (T / real steps)) = a * T" using assms by simp
  also have "(\<Sum>i<steps. b * z i) = b * (\<Sum>i<steps. z i)" by (simp add: sum_distrib_left)
  finally show ?thesis .
qed

lemma terminal_log_price_eq:
  assumes "0 < steps"
  shows "ln S + (\<Sum>i<steps. (r - q - sigma ^ 2 / 2) * (T / real steps)
                              + sigma * sqrt (T / real steps) * g (i * N + j))
         = spec_terminal_log_price r q sigma T S (standardised_draw g steps N j)"
proof -
  have "(\<Sum>i<steps. (r - q - sigma ^ 2 / 2) * (T / real steps)
                       + sigma * sqrt (T / real steps) * g (i * N + j))
          = (r - q - sigma ^ 2 / 2) * T + sigma * sqrt (T / real steps) * (\<Sum>i<steps. g (i * N + j))"
    using assms by (rule drift_diffusion_sum)
  moreover have "sigma * sqrt (T / real steps) * (\<Sum>i<steps. g (i * N + j))
          = spec_sigma sigma T * standardised_draw g steps N j"
    by (simp add: spec_sigma_def standardised_draw_def real_sqrt_divide)
  ultimately show ?thesis
    by (simp add: spec_terminal_log_price_def spec_mu_def)
qed

lemma sample_paths_last:
  assumes "0 < steps" and "0 \<le> N" and "0 \<le> T" and "0 < S"
  shows "\<exists>paths. sample_paths T S r q sigma steps N g
                   = (Inr paths, \<lambda>k. g (nat steps * nat N + k)) \<and>
                 last paths = map (\<lambda>j. exp (spec_terminal_log_price r q sigma T S
                                              (standardised_draw g (nat steps) (nat N) j)))
                                [0 ..< nat N]"
proof -
  let ?n = "nat steps" and ?m = "nat N"
  let ?P = "gbm_paths T S r q sigma steps (fst (np_random_normal ?n ?m g))"
  have n: "0 < ?n" "int ?n = steps" using assms(1) by simp_all
  have dt: "\<not> T / real_of_int steps < 0" using assms(1,3) by (simp add: not_less)
  have sp: "sample_paths T S r q sigma steps N g = (Inr ?P, \<lambda>k. g (?n * ?m + k))"
    using assms dt by (simp add: sample_paths_def np_random_normal_def)
  have g: "length (last ?P) = ?m \<and>
         (\<forall>j < ?m. last ?P ! j
           = exp (ln S + (\<Sum>i<?n. (r - q - sigma ^ 2 / 2) * (T / real ?n)
                                       + sigma * sqrt (T / real ?n) * g (i * ?m + j))))"
    using gbm_paths_last [OF n(1), of T S r q sigma ?m g] n(2) by simp
  have "last ?P = map (\<lambda>j. exp (spec_terminal_log_price r q sigma T S
                                  (standardised_draw g ?n ?m j))) [0 ..< ?m]"
  proof (rule nth_equalityI)
    show "length (last ?P) = length (map (\<lambda>j. exp (spec_terminal_log_price r q sigma T S
                                  (standardised_draw g ?n ?m j))) [0 ..< ?m])"
      using g by simp
  next
    fix j assume "j < length (last ?P)"
    then have j: "j < ?m" using g by simp
    then have "last ?P ! j = exp (ln S + (\<Sum>i<?n. (r - q - sigma ^ 2 / 2) * (T / real ?n)
                                       + sigma * sqrt (T / real ?n) * g (i * ?m + j)))"
      using g by blast
    also have "\<dots> = exp (spec_terminal_log_price r q sigma T S (standardised_draw g ?n ?m j))"
      using terminal_log_price_eq [OF n(1)] by simp
    finally show "last ?P ! j = map (\<lambda>j. exp (spec_terminal_log_price r q sigma T S
                                  (standardised_draw g ?n ?m j))) [0 ..< ?m] ! j"
      using j by simp
  qed
  with sp show ?thesis by blast
qed

lemma sum_list_map_upt: "(\<Sum>j\<leftarrow>[0 ..< m]. (f j :: real)) = (\<Sum>j<m. f j)"
  by (simp add: interv_sum_list_conv_sum_set_nat atLeast0LessThan)

lemma get_price_closed_form:
  assumes "0 < steps" and "0 < N" and "0 \<le> T" and "0 < S"
  shows "get_price_call T S K r q sigma steps N g =
           (Inr ((\<Sum>j<nat N. exp (- r * T) *
                     max (exp (spec_terminal_log_price r q sigma T S
                                 (standardised_draw g (nat steps) (nat N) j)) - K) 0)
                 / real_of_int N),
            \<lambda>k. g (nat steps * nat N + k)) \<and>
         get_price_put T S K r q sigma steps N g =
           (Inr ((\<Sum>j<nat N. exp (- r * T) *
                     max (K - exp (spec_terminal_log_price r q sigma T S
                                     (standardised_draw g (nat steps) (nat N) j))) 0)
                 / real_of_int N),
            \<lambda>k. g (nat steps * nat N + k))"
proof -
  let ?x = "\<lambda>j. exp (spec_terminal_log_price r q sigma T S
                       (standardised_draw g (nat steps) (nat N) j))"
  from assms obtain paths where
    sp: "sample_paths T S r q sigma steps N g = (Inr paths, \<lambda>k. g (nat steps * nat N + k))"
    and lp: "last paths = map ?x [0 ..< nat N]"
    using sample_paths_last [of steps N T S r q sigma g] by auto
  have m: "0 < nat N" "real (nat N) = real_of_int N" using assms(2) by simp_all
  have ne: "\<And>h. map h (map ?x [0 ..< nat N]) \<noteq> []" using m(1) by simp
  have mean: "np_mean (map h (map ?x [0 ..< nat N])) = Inr ((\<Sum>j<nat N. h (?x j)) / real_of_int N)"
    for h :: "real \<Rightarrow> real"
    using m by (simp add: np_mean_def comp_def sum_list_map_upt)
  have scal: "(\<Sum>j<nat N. h j) / real_of_int N * exp (- r * T)
                = (\<Sum>j<nat N. exp (- r * T) * h j) / real_of_int N" for h :: "nat \<Rightarrow> real"
    by (simp add: sum_distrib_right mult.commute)
  have mc: "np_mean (map (\<lambda>p. max (p - K) 0) (last paths))
              = Inr ((\<Sum>j<nat N. max (?x j - K) 0) / real_of_int N)"
    unfolding lp by (rule mean)
  have mp: "np_mean (map (\<lambda>p. max (K - p) 0) (last paths))
              = Inr ((\<Sum>j<nat N. max (K - ?x j) 0) / real_of_int N)"
    unfolding lp by (rule mean)
  have c: "get_price_call T S K r q sigma steps N g =
           (Inr ((\<Sum>j<nat N. exp (- r * T) * max (?x j - K) 0) / real_of_int N),
            \<lambda>k. g (nat steps * nat N + k))"
    using scal [of "\<lambda>j. max (?x j - K) 0"] by (simp add: get_price_call_def sp mc)
  have p: "get_price_put T S K r q sigma steps N g =
           (Inr ((\<Sum>j<nat N. exp (- r * T) * max (K - ?x j) 0) / real_of_int N),
            \<lambda>k. g (nat steps * nat N + k))"
    using scal [of "\<lambda>j. max (K - ?x j) 0"] by (simp add: get_price_put_def sp mp)
  from c p show ?thesis by (rule conjI)
qed

text \<open>
  C3. For \<open>steps > 0\<close>, \<open>N > 0\<close>, \<open>T \<ge> 0\<close> and \<open>S > 0\<close> the sampling pricer
  returns a price and advances the generator by \<open>steps N\<close> variates. The price is the
  sample mean over the \<open>N\<close> paths of the discounted payoffs
  \<open>exp (- r T) max (S\<^sub>T - K) 0\<close> for the call and \<open>exp (- r T) max (K - S\<^sub>T) 0\<close> for
  the put. The terminal log-price of path \<open>j\<close> is \<open>mu + sigma z\<^sub>j\<close> with the derived
  parameters \<open>mu = (r - q - sigma\<^sup>2/2) T + ln S\<close> (the \<open>steps\<close> drift increments
  \<open>(r - q - sigma\<^sup>2/2) dt\<close> add up to \<open>(r - q - sigma\<^sup>2/2) T\<close>) and \<open>sigma \<surd>T\<close>, and
  \<open>z\<^sub>j\<close> the sum of the \<open>steps\<close> variates of path \<open>j\<close> over \<open>\<surd>steps\<close>; distinct
  paths read distinct variates.
\<close>

theorem get_price_sample_mean:
  assumes "0 < steps" and "0 < N" and "0 \<le> T" and "0 < S"
  shows "get_price_call T S K r q sigma steps N g =
           (Inr ((\<Sum>j<nat N. exp (- r * T) *
                     max (exp (spec_terminal_log_price r q sigma T S
                                 (standardised_draw g (nat steps) (nat N) j)) - K) 0)
                 / real_of_int N),
            \<lambda>k. g (nat steps * nat N + k)) \<and>
         get_price_put T S K r q sigma steps N g =
           (Inr ((\<Sum>j<nat N. exp (- r * T) *
                     max (K - exp (spec_terminal_log_price r q sigma T S
                                     (standardised_draw g (nat steps) (nat N) j))) 0)
                 / real_of_int N),
            \<lambda>k. g (nat steps * nat N + k))"
  using assms by (rule get_price_closed_form)

theorem get_price_sample_mean_witness:
  "(0::int) < 1 \<and> (0::int) < 2 \<and> (0::real) \<le> 1 \<and> (0::real) < 1 \<and>
   get_price_call 1 1 0 0 0 1 1 2 real
     = (Inr ((exp (- 1 / 2) + exp (1 / 2)) / 2), \<lambda>k. real (2 + k)) \<and>
   get_price_put 1 1 0 0 0 1 1 2 real = (Inr 0, \<lambda>k. real (2 + k))"
proof -
  have two: "{..<2::nat} = {0, 1}" by auto
  have "spec_terminal_log_price 0 0 1 1 1 (standardised_draw real 1 2 0) = - 1 / 2"
       "spec_terminal_log_price 0 0 1 1 1 (standardised_draw real 1 2 1) = 1 / 2"
    by (simp_all add: spec_terminal_log_price_def standardised_draw_def spec_mu_def spec_sigma_def)
  then show ?thesis
    using get_price_sample_mean [of 1 2 1 1 0 0 0 1 real]
    by (simp add: two)
qed

lemma payoff_sums_mono:
  assumes "K1 \<le> (K2::real)"
  shows "(\<Sum>p\<leftarrow>xs. max (p - K2) 0) \<le> (\<Sum>p\<leftarrow>xs. max (p - K1) 0)"
    and "(\<Sum>p\<leftarrow>xs. max (K1 - p) 0) \<le> (\<Sum>p\<leftarrow>xs. max (K2 - p) 0)"
  using assms by (auto intro!: sum_list_mono)

lemma np_mean_scaled_mono:
  assumes "sum_list xs \<le> sum_list ys" and "length xs = length ys" and "0 \<le> (c::real)"
  shows "case (np_mean xs, np_mean ys) of
           (Inr a, Inr b) \<Rightarrow> a * c \<le> b * c
         | (Inl e1, Inl e2) \<Rightarrow> e1 = e2
         | _ \<Rightarrow> False"
proof (cases "xs = []")
  case True
  then show ?thesis using assms(2) by (simp add: np_mean_def)
next
  case False
  then have "ys \<noteq> []" using assms(2) by auto
  moreover have "sum_list xs / real (length ys) * c \<le> sum_list ys / real (length ys) * c"
    using assms(1,3) by (simp add: divide_right_mono mult_right_mono)
  ultimately show ?thesis using False assms(2) by (simp add: np_mean_def)
qed

text \<open>
  C10. For a fixed generator state and fixed other arguments the price is monotone in
  the strike: for \<open>K1 \<le> K2\<close> the call price at \<open>K2\<close> is at most the call price at
  \<open>K1\<close>, and the put price at \<open>K1\<close> is at most the put price at \<open>K2\<close>. Whether the
  call returns a price or fails does not depend on the strike.
\<close>

theorem get_price_monotone_in_strike:
  assumes "K1 \<le> K2"
  shows "(case (fst (get_price_call T S K1 r q sigma steps N g),
               fst (get_price_call T S K2 r q sigma steps N g)) of
            (Inr p1, Inr p2) \<Rightarrow> p2 \<le> p1
          | (Inl e1, Inl e2) \<Rightarrow> e1 = e2
          | _ \<Rightarrow> False) \<and>
         (case (fst (get_price_put T S K1 r q sigma steps N g),
               fst (get_price_put T S K2 r q sigma steps N g)) of
            (Inr p1, Inr p2) \<Rightarrow> p1 \<le> p2
          | (Inl e1, Inl e2) \<Rightarrow> e1 = e2
          | _ \<Rightarrow> False)"
proof -
  obtain res g' where sp: "sample_paths T S r q sigma steps N g = (res, g')"
    by (cases "sample_paths T S r q sigma steps N g")
  show ?thesis
  proof (cases res)
    case (Inl e)
    then show ?thesis by (simp add: get_price_call_def get_price_put_def sp)
  next
    case (Inr paths)
    let ?c = "exp (- r * T)"
    have c: "0 \<le> ?c" by simp
    have "case (np_mean (map (\<lambda>p. max (p - K2) 0) (last paths)),
                np_mean (map (\<lambda>p. max (p - K1) 0) (last paths))) of
            (Inr a, Inr b) \<Rightarrow> a * ?c \<le> b * ?c
          | (Inl e1, Inl e2) \<Rightarrow> e1 = e2
          | _ \<Rightarrow> False"
      using payoff_sums_mono(1) [OF assms] c by (intro np_mean_scaled_mono) simp_all
    then have call: "case (fst (get_price_call T S K1 r q sigma steps N g),
               fst (get_price_call T S K2 r q sigma steps N g)) of
            (Inr p1, Inr p2) \<Rightarrow> p2 \<le> p1
          | (Inl e1, Inl e2) \<Rightarrow> e1 = e2
          | _ \<Rightarrow> False"
      by (auto simp: get_price_call_def sp Inr split: sum.splits)
    have "case (np_mean (map (\<lambda>p. max (K1 - p) 0) (last paths)),
                np_mean (map (\<lambda>p. max (K2 - p) 0) (last paths))) of
            (Inr a, Inr b) \<Rightarrow> a * ?c \<le> b * ?c
          | (Inl e1, Inl e2) \<Rightarrow> e1 = e2
          | _ \<Rightarrow> False"
      using payoff_sums_mono(2) [OF assms] c by (intro np_mean_scaled_mono) simp_all
    then have put: "case (fst (get_price_put T S K1 r q sigma steps N g),
               fst (get_price_put T S K2 r q sigma steps N g)) of
            (Inr p1, Inr p2) \<Rightarrow> p1 \<le> p2
          | (Inl e1, Inl e2) \<Rightarrow> e1 = e2
          | _ \<Rightarrow> False"
      by (auto simp: get_price_put_def sp Inr split: sum.splits)
    from call put show ?thesis by (rule conjI)
  qed
qed

text \<open>
  On valid inputs both functions return a price, for every strike, and the price is not
  negative.
\<close>

lemma get_price_nonneg:
  assumes "0 < steps" and "0 < N" and "0 \<le> T" and "0 < S"
  shows "\<exists>p. fst (get_price_call T S K r q sigma steps N g) = Inr p \<and> 0 \<le> p"
    and "\<exists>p. fst (get_price_put T S K r q sigma steps N g) = Inr p \<and> 0 \<le> p"
proof -
  note cf = get_price_closed_form [OF assms, of K r q sigma g]
  have nn: "0 \<le> (\<Sum>j<nat N. exp (- r * T) * max (h j) 0) / real_of_int N" for h :: "nat \<Rightarrow> real"
    using assms(2) by (intro divide_nonneg_nonneg sum_nonneg mult_nonneg_nonneg) simp_all
  let ?x = "\<lambda>j. exp (spec_terminal_log_price r q sigma T S
                       (standardised_draw g (nat steps) (nat N) j))"
  from cf have "fst (get_price_call T S K r q sigma steps N g) =
      Inr ((\<Sum>j<nat N. exp (- r * T) * max (?x j - K) 0) / real_of_int N)"
    by (simp only: fst_conv)
  then show "\<exists>p. fst (get_price_call T S K r q sigma steps N g) = Inr p \<and> 0 \<le> p"
    using nn [of "\<lambda>j. ?x j - K"] by blast
  from cf have "fst (get_price_put T S K r q sigma steps N g) =
      Inr ((\<Sum>j<nat N. exp (- r * T) * max (K - ?x j) 0) / real_of_int N)"
    by (simp only: fst_conv)
  then show "\<exists>p. fst (get_price_put T S K r q sigma steps N g) = Inr p \<and> 0 \<le> p"
    using nn [of "\<lambda>j. K - ?x j"] by blast
qed

theorem get_price_monotone_in_strike_witness:
  "(0::real) \<le> 1 \<and>
   (\<exists>p1 p2. fst (get_price_call 1 1 0 0 0 1 1 2 real) = Inr p1 \<and>
            fst (get_price_call 1 1 1 0 0 1 1 2 real) = Inr p2 \<and> p2 \<le> p1) \<and>
   (\<exists>p1 p2. fst (get_price_put 1 1 0 0 0 1 1 2 real) = Inr p1 \<and>
            fst (get_price_put 1 1 1 0 0 1 1 2 real) = Inr p2 \<and> p1 \<le> p2)"
proof -
  have c1: "\<exists>p. fst (get_price_call 1 1 0 0 0 1 1 2 real) = Inr p"
    using get_price_nonneg(1) [of 1 2 1 1 0 0 0 1 real] by auto
  have c2: "\<exists>p. fst (get_price_call 1 1 1 0 0 1 1 2 real) = Inr p"
    using get_price_nonneg(1) [of 1 2 1 1 1 0 0 1 real] by auto
  have u1: "\<exists>p. fst (get_price_put 1 1 0 0 0 1 1 2 real) = Inr p"
    using get_price_nonneg(2) [of 1 2 1 1 0 0 0 1 real] by auto
  have u2: "\<exists>p. fst (get_price_put 1 1 1 0 0 1 1 2 real) = Inr p"
    using get_price_nonneg(2) [of 1 2 1 1 1 0 0 1 real] by auto
  from c1 c2 u1 u2 show ?thesis
    using get_price_monotone_in_strike [of 0 1 1 1 0 0 1 1 2 real] by auto
qed

lemma get_price_fst_snd:
  "fst (get_price_call T S K r q sigma steps N g) =
     (case fst (sample_paths T S r q sigma steps N g) of
        Inl e \<Rightarrow> Inl e
      | Inr paths \<Rightarrow>
          (case np_mean (map (\<lambda>p. max (p - K) 0) (last paths)) of
             Inl e \<Rightarrow> Inl e | Inr m \<Rightarrow> Inr (m * exp (- r * T))))"
  "fst (get_price_put T S K r q sigma steps N g) =
     (case fst (sample_paths T S r q sigma steps N g) of
        Inl e \<Rightarrow> Inl e
      | Inr paths \<Rightarrow>
          (case np_mean (map (\<lambda>p. max (K - p) 0) (last paths)) of
             Inl e \<Rightarrow> Inl e | Inr m \<Rightarrow> Inr (m * exp (- r * T))))"
  "snd (get_price_call T S K r q sigma steps N g) = snd (sample_paths T S r q sigma steps N g)"
  "snd (get_price_put T S K r q sigma steps N g) = snd (sample_paths T S r q sigma steps N g)"
  by (auto simp: get_price_call_def get_price_put_def split: prod.splits sum.splits)

lemma np_random_normal_cong:
  assumes "\<forall>k < steps * N. g k = g' k"
  shows "fst (np_random_normal steps N g) = fst (np_random_normal steps N g')"
proof -
  have "g (i * N + j) = g' (i * N + j)" if "i < steps" "j < N" for i j
  proof -
    have "i * N + j < Suc i * N" using that(2) by simp
    also have "\<dots> \<le> steps * N" using that(1) by (intro mult_le_mono1) simp
    finally show ?thesis using assms by simp
  qed
  then show ?thesis by (simp add: np_random_normal_def)
qed

text \<open>
  C9 (as the code has it). The pricer is deterministic given its arguments and the
  state of the process-wide generator: two runs with the same arguments from generator
  states that agree on the next \<open>steps N\<close> variates (in particular from the same
  state) return the same price. The randomness is not an argument of the call: the
  pricer takes no seed and no generator, it reads the process-wide generator and
  advances it by \<open>steps N\<close> variates.
\<close>

theorem get_price_reads_generator_state:
  assumes "\<forall>k < nat steps * nat N. g k = g' k"
  shows "fst (get_price_call T S K r q sigma steps N g)
           = fst (get_price_call T S K r q sigma steps N g') \<and>
         fst (get_price_put T S K r q sigma steps N g)
           = fst (get_price_put T S K r q sigma steps N g') \<and>
         (0 < steps \<and> 0 \<le> N \<longrightarrow>
            snd (get_price_call T S K r q sigma steps N g) = (\<lambda>k. g (nat steps * nat N + k)) \<and>
            snd (get_price_put T S K r q sigma steps N g) = (\<lambda>k. g (nat steps * nat N + k)))"
proof -
  have z: "fst (np_random_normal (nat steps) (nat N) g)
             = fst (np_random_normal (nat steps) (nat N) g')"
    using assms by (rule np_random_normal_cong)
  have sp: "fst (sample_paths T S r q sigma steps N g)
              = fst (sample_paths T S r q sigma steps N g')"
    by (simp add: sample_paths_def z)
  have st: "snd (sample_paths T S r q sigma steps N g) = (\<lambda>k. g (nat steps * nat N + k))"
    if "0 < steps" "0 \<le> N"
    using that by (simp add: sample_paths_def np_random_normal_def)
  show ?thesis using sp st by (simp add: get_price_fst_snd)
qed

theorem get_price_reads_generator_state_witness:
  "fst (get_price_call 1 1 0 0 0 1 1 2 real)
     = fst (get_price_call 1 1 0 0 0 1 1 2 (\<lambda>k. if k < 2 then real k else 0)) \<and>
   snd (get_price_call 1 1 0 0 0 1 1 2 real) = (\<lambda>k. real (2 + k))"
proof -
  have "\<forall>k < nat 1 * nat 2. real k = (if k < 2 then real k else 0)" by simp
  then show ?thesis
    using get_price_reads_generator_state
      [of 1 2 real "\<lambda>k. if k < 2 then real k else 0" 1 1 0 0 0 1]
    by simp
qed

text \<open>
  The arguments of a call do not determine its result, so the randomness is not
  supplied per call: two successive calls with identical arguments, the second one
  starting from the process-wide state the first one left, return different prices.
  With \<open>T = S = sigma = 1\<close>, \<open>K = r = q = 0\<close>, one step and one path, from a generator
  whose next variates are \<open>0, 1, 2, \<dots>\<close>, the first call returns \<open>exp (- 1/2)\<close> and the
  second \<open>exp (1/2)\<close>.
\<close>

theorem get_price_call_repeated_call_differs:
  "fst (get_price_call 1 1 0 0 0 1 1 1 real) = Inr (exp (- 1 / 2)) \<and>
   fst (get_price_call 1 1 0 0 0 1 1 1 (snd (get_price_call 1 1 0 0 0 1 1 1 real)))
     = Inr (exp (1 / 2)) \<and>
   fst (get_price_call 1 1 0 0 0 1 1 1 real)
     \<noteq> fst (get_price_call 1 1 0 0 0 1 1 1 (snd (get_price_call 1 1 0 0 0 1 1 1 real)))"
proof -
  have one: "{..<1::nat} = {0}" by auto
  have a: "get_price_call 1 1 0 0 0 1 1 1 real = (Inr (exp (- 1 / 2)), \<lambda>k. 1 + real k)"
    using get_price_closed_form [of 1 1 1 1 0 0 0 1 real]
    by (simp add: one spec_terminal_log_price_def standardised_draw_def spec_mu_def spec_sigma_def)
  have b: "get_price_call 1 1 0 0 0 1 1 1 (\<lambda>k. 1 + real k) = (Inr (exp (1 / 2)), \<lambda>k. 2 + real k)"
    using get_price_closed_form [of 1 1 1 1 0 0 0 1 "\<lambda>k. 1 + real k"]
    by (simp add: one spec_terminal_log_price_def standardised_draw_def spec_mu_def spec_sigma_def)
  show ?thesis by (simp add: a b)
qed

section \<open>Properties of the scan\<close>

lemma get_uncertainty_model_scan_day:
  assumes "0 < t" and "vol \<noteq> 0"
  shows "get_uncertainty_model t 3 2 vol 0
           = Inr (um_uncertainty_model t 3 2 vol 0, um_low t 2 vol 0, um_high t 2 vol 0)"
proof -
  have "um_sigma t vol \<noteq> 0" using assms by (rule um_sigma_nonzero)
  then have "um_low t 2 vol 0 < um_high t 2 vol 0" by (rule um_low_less_high)
  then show ?thesis using assms(1) by (intro get_uncertainty_model_returns) simp_all
qed

lemma override_model_returns:
  assumes "0 < t"
  shows "override_model i t =
           Inr (um_uncertainty_model t 3 2 (if i = 20 \<or> i = 21 then 0.9 else 0.4) 0,
                um_low t 2 (if i = 20 \<or> i = 21 then 0.9 else 0.4) 0,
                um_high t 2 (if i = 20 \<or> i = 21 then 0.9 else 0.4) 0)"
  using get_uncertainty_model_scan_day [OF assms, of "0.9"]
    get_uncertainty_model_scan_day [OF assms, of "0.4"]
  by (simp add: override_model_def)

lemma scan_override_loop_step:
  assumes "0 < t"
  shows "scan_override_loop ae dt (i # is) t rs cs =
           scan_override_loop ae dt is (t + dt)
             (rs @ [fst (ae i (um_uncertainty_model t 3 2 (if i = 20 \<or> i = 21 then 0.9 else 0.4) 0)
                              (um_low t 2 (if i = 20 \<or> i = 21 then 0.9 else 0.4) 0)
                              (um_high t 2 (if i = 20 \<or> i = 21 then 0.9 else 0.4) 0))])
             (cs @ [snd (ae i (um_uncertainty_model t 3 2 (if i = 20 \<or> i = 21 then 0.9 else 0.4) 0)
                              (um_low t 2 (if i = 20 \<or> i = 21 then 0.9 else 0.4) 0)
                              (um_high t 2 (if i = 20 \<or> i = 21 then 0.9 else 0.4) 0))])"
  by (simp add: override_model_returns [OF assms])

lemma scan_override_loop_upt:
  assumes "0 < dt"
    and "\<And>i. entry i =
           ae i (um_uncertainty_model (real (i + 1) * dt) 3 2 (if i = 20 \<or> i = 21 then 0.9 else 0.4) 0)
                (um_low (real (i + 1) * dt) 2 (if i = 20 \<or> i = 21 then 0.9 else 0.4) 0)
                (um_high (real (i + 1) * dt) 2 (if i = 20 \<or> i = 21 then 0.9 else 0.4) 0)"
  shows "scan_override_loop ae dt [a ..< a + n] (real (a + 1) * dt) rs cs
           = Inr (rs @ map (\<lambda>i. fst (entry i)) [a ..< a + n],
                  cs @ map (\<lambda>i. snd (entry i)) [a ..< a + n])"
proof (induction n arbitrary: a rs cs)
  case 0
  show ?case by simp
next
  case (Suc n)
  have l: "[a ..< a + Suc n] = a # [Suc a ..< Suc a + n]"
    by (simp add: upt_conv_Cons)
  have t: "0 < real (a + 1) * dt" using assms(1) by simp
  have nt: "real (a + 1) * dt + dt = real (Suc a + 1) * dt"
    by (simp add: algebra_simps)
  have "scan_override_loop ae dt [a ..< a + Suc n] (real (a + 1) * dt) rs cs
          = scan_override_loop ae dt [Suc a ..< Suc a + n] (real (a + 1) * dt + dt)
              (rs @ [fst (entry a)]) (cs @ [snd (entry a)])"
    unfolding l assms(2) by (rule scan_override_loop_step [OF t])
  also have "\<dots> = Inr ((rs @ [fst (entry a)]) @ map (\<lambda>i. fst (entry i)) [Suc a ..< Suc a + n],
                        (cs @ [snd (entry a)]) @ map (\<lambda>i. snd (entry i)) [Suc a ..< Suc a + n])"
    unfolding nt by (rule Suc.IH)
  also have "\<dots> = Inr (rs @ map (\<lambda>i. fst (entry i)) [a ..< a + Suc n],
                        cs @ map (\<lambda>i. snd (entry i)) [a ..< a + Suc n])"
    unfolding l by simp
  finally show ?case .
qed

lemma lnd_sigma_um:
  assumes "0 \<le> t"
  shows "lnd_sigma (um_uncertainty_model t n S vol r) = vol ^ 2 * t"
  using assms by (simp add: um_uncertainty_model_def um_sigma_def power_mult_distrib)

text \<open>
  The variance parameter \<open>vol\<^sup>2 t\<close> of the scanned days is largest on day 22, the
  last day of the override: \<open>0.81 \<sqdot> 22 / 365\<close> there, \<open>0.81 \<sqdot> 21 / 365\<close> on day 21 and at
  most \<open>0.16 \<sqdot> 40 / 365\<close> on the other days.
\<close>

lemma override_variance_peak:
  assumes "j < 40" and "j \<noteq> 21"
  shows "(if j = 20 \<or> j = 21 then 0.9 else 0.4) ^ 2 * (real (j + 1) * (1 / 365))
           < (0.9 :: real) ^ 2 * (real (21 + 1) * (1 / 365))"
proof (cases "j = 20")
  case True
  then show ?thesis by (simp add: power2_eq_square)
next
  case False
  have "real (j + 1) \<le> 40" using assms(1) by simp
  then have "(0.4 :: real) ^ 2 * (real (j + 1) * (1 / 365)) \<le> 0.4 ^ 2 * (40 * (1 / 365))"
    by (intro mult_left_mono mult_right_mono) simp_all
  also have "\<dots> < (0.9 :: real) ^ 2 * (real (21 + 1) * (1 / 365))"
    by (simp add: power2_eq_square)
  finally show ?thesis using False assms(2) by simp
qed

text \<open>A list with one strict maximum is reported at that position.\<close>

lemma lookback_report_unique_max:
  assumes "k < length results" and "length conf_list = length results"
    and "\<forall>j < length results. j \<noteq> k \<longrightarrow> results ! j < results ! k"
  shows "lookback_report results conf_list = Inr (results ! k, conf_list ! k, k + 1)"
proof -
  have "results \<noteq> []" using assms(1) by auto
  then obtain k' where k': "np_argmax results = Inr k'" "k' < length results"
    "\<forall>j < length results. results ! j \<le> results ! k'"
    by (rule np_argmax_first_max)
  have "k' = k"
  proof (rule ccontr)
    assume "k' \<noteq> k"
    then have "results ! k' < results ! k" using assms(3) k'(2) by simp
    moreover have "results ! k \<le> results ! k'" using k'(3) assms(1) by simp
    ultimately show False by simp
  qed
  with k' have a: "np_argmax results = Inr k"
    and m: "\<forall>j < length results. results ! j \<le> results ! k" by simp_all
  have "np_amax results = Inr (results ! k)"
    using a assms(1) m by (rule np_amax_is_max)
  then show ?thesis using a assms(1,2) by (simp add: lookback_report_def)
qed

text \<open>
  C4 (as the code has it). The scan with the override returns 40 results, one per day,
  and reports through \<open>lookback_report\<close>. The result of the 1-based day \<open>day\<close> is what
  \<^verbatim>\<open>get_ae_results\<close> returns for the model built at \<open>t = day / 365\<close> with volatility
  \<open>0.9\<close> when \<open>day\<close> is 21 or 22 (loop indices 20 and 21), and with the base
  parameters (\<open>vol = 0.4\<close>) on every other day. Whenever the estimate is a strictly
  increasing function \<open>f\<close> of the variance parameter \<open>sigma\<^sup>2 = vol\<^sup>2 t\<close> handed to the
  distribution (as the exact price of an option is for \<open>r = 0\<close> and fixed \<open>S\<close> and
  \<open>K\<close>), the selected day is 22, with the estimate and the interval of that day.
\<close>

theorem scan_override_days:
  "\<exists>results conf_list.
     scan_override ae = Inr (results, conf_list) \<and>
     lookback_override ae = lookback_report results conf_list \<and>
     length results = 40 \<and> length conf_list = 40 \<and>
     (\<forall>day \<in> {1 .. 40}. \<exists>um low high.
        get_uncertainty_model (real day / 365) 3 2 (if day = 21 \<or> day = 22 then 0.9 else 0.4) 0
          = Inr (um, low, high) \<and>
        results ! (day - 1) = fst (ae (day - 1) um low high) \<and>
        conf_list ! (day - 1) = snd (ae (day - 1) um low high)) \<and>
     (strict_mono f \<and> (\<forall>i um low high. fst (ae i um low high) = f (lnd_sigma um)) \<longrightarrow>
        lookback_override ae = Inr (results ! 21, conf_list ! 21, 22))"
proof -
  define vol :: "nat \<Rightarrow> real" where "vol i = (if i = 20 \<or> i = 21 then 0.9 else 0.4)" for i
  define entry where "entry i =
           ae i (um_uncertainty_model (real (i + 1) * (1 / 365)) 3 2 (vol i) 0)
                (um_low (real (i + 1) * (1 / 365)) 2 (vol i) 0)
                (um_high (real (i + 1) * (1 / 365)) 2 (vol i) 0)" for i
  let ?rs = "map (\<lambda>i. fst (entry i)) [0 ..< 40]"
  let ?cs = "map (\<lambda>i. snd (entry i)) [0 ..< 40]"
  have "scan_override_loop ae (1 / 365) [0 ..< 0 + 40] (real (0 + 1) * (1 / 365)) [] []
          = Inr ([] @ map (\<lambda>i. fst (entry i)) [0 ..< 0 + 40],
                 [] @ map (\<lambda>i. snd (entry i)) [0 ..< 0 + 40])"
    by (rule scan_override_loop_upt) (simp_all add: entry_def vol_def)
  then have sc: "scan_override ae = Inr (?rs, ?cs)"
    by (simp add: scan_override_def)
  have lb: "lookback_override ae = lookback_report ?rs ?cs"
    by (simp add: lookback_override_def sc)
  have days: "\<exists>um low high.
        get_uncertainty_model (real day / 365) 3 2 (if day = 21 \<or> day = 22 then 0.9 else 0.4) 0
          = Inr (um, low, high) \<and>
        ?rs ! (day - 1) = fst (ae (day - 1) um low high) \<and>
        ?cs ! (day - 1) = snd (ae (day - 1) um low high)" if "day \<in> {1 .. 40}" for day
  proof -
    from that obtain i where i: "day = i + 1" "i < 40"
      by (cases day) auto
    have v: "(if day = 21 \<or> day = 22 then 0.9 else 0.4) = vol i"
      using i by (auto simp: vol_def)
    have t: "0 < real day / 365" using i(1) by simp
    have "vol i \<noteq> 0" by (simp add: vol_def)
    with t have "get_uncertainty_model (real day / 365) 3 2 (vol i) 0
            = Inr (um_uncertainty_model (real day / 365) 3 2 (vol i) 0,
                   um_low (real day / 365) 2 (vol i) 0, um_high (real day / 365) 2 (vol i) 0)"
      by (rule get_uncertainty_model_scan_day)
    moreover have "?rs ! i = fst (entry i)" "?cs ! i = snd (entry i)"
      using i(2) by simp_all
    ultimately show ?thesis
      unfolding v using i(1) by (simp add: entry_def)
  qed
  have peak: "lookback_override ae = Inr (?rs ! 21, ?cs ! 21, 22)"
    if sm: "strict_mono f" and est: "\<forall>i um low high. fst (ae i um low high) = f (lnd_sigma um)"
  proof -
    have val: "?rs ! j = f (vol j ^ 2 * (real (j + 1) * (1 / 365)))" if "j < 40" for j
      using that est by (simp add: entry_def lnd_sigma_um)
    have "\<forall>j < length ?rs. j \<noteq> 21 \<longrightarrow> ?rs ! j < ?rs ! 21"
    proof (intro allI impI)
      fix j assume j: "j < length ?rs" "j \<noteq> 21"
      then have j40: "j < 40" by simp
      have "vol j ^ 2 * (real (j + 1) * (1 / 365)) < vol 21 ^ 2 * (real (21 + 1) * (1 / 365))"
        using override_variance_peak [OF j40 j(2)] by (simp add: vol_def)
      then have "f (vol j ^ 2 * (real (j + 1) * (1 / 365)))
                   < f (vol 21 ^ 2 * (real (21 + 1) * (1 / 365)))"
        using sm by (simp add: strict_mono_less)
      moreover have "?rs ! 21 = f (vol 21 ^ 2 * (real (21 + 1) * (1 / 365)))"
        by (rule val) simp
      ultimately show "?rs ! j < ?rs ! 21"
        by (simp only: val [OF j40])
    qed
    then have "lookback_report ?rs ?cs = Inr (?rs ! 21, ?cs ! 21, 21 + 1)"
      by (intro lookback_report_unique_max) simp_all
    then show ?thesis by (simp add: lb)
  qed
  from sc lb days peak show ?thesis
    by (intro exI [of _ ?rs] exI [of _ ?cs]) simp
qed

theorem scan_override_days_witness:
  "(21::nat) \<in> {1 .. 40} \<and> (20::nat) \<in> {1 .. 40} \<and> strict_mono (\<lambda>x::real. x) \<and>
   (\<exists>results conf_list.
      scan_override (\<lambda>i um low high. (lnd_sigma um, (low, high))) = Inr (results, conf_list) \<and>
      results ! 20 = 0.81 * 21 / 365 \<and> results ! 19 = 0.16 * 20 / 365 \<and>
      lookback_override (\<lambda>i um low high. (lnd_sigma um, (low, high)))
        = Inr (results ! 21, conf_list ! 21, 22))"
proof -
  let ?ae = "\<lambda>(i::nat) um (low::real) (high::real). (lnd_sigma um, (low, high))"
  have sm: "strict_mono (\<lambda>x::real. x)" by (simp add: strict_mono_def)
  have r: "get_uncertainty_model (real day / 365) 3 2 vol 0 = Inr (um, low, high)
             \<Longrightarrow> lnd_sigma um = vol ^ 2 * (real day / 365)" for day vol um low high
    by (auto simp: get_uncertainty_model_def LogNormalDistribution_init_def
        um_sigma_def power_mult_distrib split: if_splits)
  from scan_override_days [of ?ae "\<lambda>x::real. x"]
  have "\<exists>results conf_list.
      scan_override ?ae = Inr (results, conf_list) \<and>
      results ! 20 = 0.81 * 21 / 365 \<and> results ! 19 = 0.16 * 20 / 365 \<and>
      lookback_override ?ae = Inr (results ! 21, conf_list ! 21, 22)"
  proof (elim exE conjE)
    fix results :: "real list" and conf_list :: "(real \<times> real) list"
    assume sc: "scan_override ?ae = Inr (results, conf_list)"
      and days: "\<forall>day \<in> {1 .. 40}. \<exists>um low high.
        get_uncertainty_model (real day / 365) 3 2 (if day = 21 \<or> day = 22 then 0.9 else 0.4) 0
          = Inr (um, low, high) \<and>
        results ! (day - 1) = fst (?ae (day - 1) um low high) \<and>
        conf_list ! (day - 1) = snd (?ae (day - 1) um low high)"
      and peak: "strict_mono (\<lambda>x::real. x) \<and>
        (\<forall>i um low high. fst (?ae i um low high) = lnd_sigma um) \<longrightarrow>
        lookback_override ?ae = Inr (results ! 21, conf_list ! 21, 22)"
    have "results ! 20 = 0.81 * 21 / 365"
      using days [rule_format, of 21] r [of 21 "0.9"] by (auto simp: power2_eq_square)
    moreover have "results ! 19 = 0.16 * 20 / 365"
      using days [rule_format, of 20] r [of 20 "0.4"] by (auto simp: power2_eq_square)
    moreover have "lookback_override ?ae = Inr (results ! 21, conf_list ! 21, 22)"
      using peak sm by simp
    ultimately show ?thesis using sc by blast
  qed
  with sm show ?thesis by simp
qed

text \<open>
  On day 20 (loop index 19, \<open>t = 20 / 365\<close>) the model is the one of the base
  volatility and not the one of volatility \<open>0.9\<close>; on day 22 (loop index 21) it is the
  one of volatility \<open>0.9\<close>.
\<close>

theorem override_model_day_20_base_volatility:
  "override_model 19 (20 / 365) = get_uncertainty_model (20 / 365) 3 2 0.4 0 \<and>
   override_model 19 (20 / 365) \<noteq> get_uncertainty_model (20 / 365) 3 2 0.9 0 \<and>
   override_model 21 (22 / 365) = get_uncertainty_model (22 / 365) 3 2 0.9 0 \<and>
   override_model 21 (22 / 365) \<noteq> get_uncertainty_model (22 / 365) 3 2 0.4 0"
proof -
  have a: "override_model 19 (20 / 365) = get_uncertainty_model (20 / 365) 3 2 0.4 0"
    and b: "override_model 21 (22 / 365) = get_uncertainty_model (22 / 365) 3 2 0.9 0"
    by (simp_all add: override_model_def)
  note r = get_uncertainty_model_scan_day
  have d: "lnd_sigma (um_uncertainty_model t 3 2 0.4 0) \<noteq> lnd_sigma (um_uncertainty_model t 3 2 0.9 0)"
    if "0 < t" for t
    using that by (simp add: lnd_sigma_um power2_eq_square)
  have "get_uncertainty_model (20 / 365) 3 2 0.4 0 \<noteq> get_uncertainty_model (20 / 365) 3 2 0.9 0"
    using d [of "20 / 365"] by (auto simp: r)
  moreover have "get_uncertainty_model (22 / 365) 3 2 0.9 0 \<noteq> get_uncertainty_model (22 / 365) 3 2 0.4 0"
    using d [of "22 / 365"] by (auto simp: r)
  ultimately show ?thesis using a b by simp
qed

end
